theory Spec2Isabelle
  imports Complex_Main "HOL-Library.Log_Nat" "HOL-Library.Multiset"
begin

section \<open>JavaScript numbers\<close>

text \<open>
  Every JavaScript number is an IEEE 754 binary64 value. The values that occur in the
  analytics code are finite and far inside the normal range (time values are at most
  8.64e15 in magnitude, array lengths are below \<open>2^32\<close>), so a number is modelled as
  the rational it denotes and every arithmetic operator as the exact operation followed by
  rounding to the nearest binary64 value, ties to even (\<open>fl\<close>). Overflow, subnormals,
  NaN and the sign of zero are outside the model.
\<close>

definition round_half_even :: "rat \<Rightarrow> int" where
  "round_half_even x =
     (let f = \<lfloor>x\<rfloor>; r = x - of_int f
      in if r < 1 / 2 then f else if 1 / 2 < r then f + 1 else if even f then f else f + 1)"

text \<open>The binary exponent of a positive rational: \<open>2 powi expo q \<le> q < 2 powi (expo q + 1)\<close>.\<close>

definition expo :: "rat \<Rightarrow> int" where
  "expo q =
     (let (a, b) = quotient_of q; e0 = bitlen a - bitlen b - 1
      in if 2 powi (e0 + 1) \<le> q then e0 + 1 else e0)"

text \<open>Rounding a positive rational to 53 significant bits.\<close>

definition fl_pos :: "rat \<Rightarrow> rat" where
  "fl_pos q =
     (let e = expo q in of_int (round_half_even (q * 2 powi (52 - e))) * 2 powi (e - 52))"

definition fl :: "rat \<Rightarrow> rat" where
  "fl q = (if q = 0 then 0 else if q < 0 then - fl_pos (- q) else fl_pos q)"

definition js_add :: "rat \<Rightarrow> rat \<Rightarrow> rat" where
  "js_add a b = fl (a + b)"

definition js_sub :: "rat \<Rightarrow> rat \<Rightarrow> rat" where
  "js_sub a b = fl (a - b)"

definition js_mul :: "rat \<Rightarrow> rat \<Rightarrow> rat" where
  "js_mul a b = fl (a * b)"

text \<open>Division; the divisors of the analytics code are never zero.\<close>

definition js_div :: "rat \<Rightarrow> rat \<Rightarrow> rat" where
  "js_div a b = fl (a / b)"

text \<open>
  \<^verbatim>\<open>Math.round\<close> returns the integer closest to its argument and, of two equally close
  integers, the one nearer to plus infinity; \<^verbatim>\<open>Math.floor\<close> is the floor. Both are exact.
\<close>

definition Math_round :: "rat \<Rightarrow> int" where
  "Math_round x = \<lfloor>x + 1 / 2\<rfloor>"

definition Math_floor :: "rat \<Rightarrow> int" where
  "Math_floor x = \<lfloor>x\<rfloor>"

definition Math_max :: "nat \<Rightarrow> nat \<Rightarrow> nat" where
  "Math_max a b = (if a < b then b else a)"

text \<open>The constant \<^verbatim>\<open>1000 * 60 * 60 * 24\<close>, the milliseconds of a day.\<close>

definition MS_PER_DAY :: rat where
  "MS_PER_DAY = js_mul (js_mul (js_mul 1000 60) 60) 24"

section \<open>Dates\<close>

text \<open>
  A \<^verbatim>\<open>Date\<close> holds a time value: the milliseconds since 1970-01-01T00:00:00Z, an integer.
  The local time zone of the machine is a fixed offset \<open>tz\<close> (local time minus UTC, in
  milliseconds); zones that change their offset during the year are outside the model.
\<close>

type_synonym time_value = int

definition msPerDay :: int where
  "msPerDay = 86400000"

text \<open>The day number (days since the epoch) of the local calendar day of \<open>t\<close>.\<close>

definition LocalDay :: "int \<Rightarrow> time_value \<Rightarrow> int" where
  "LocalDay tz t = (t + tz) div msPerDay"

text \<open>\<^verbatim>\<open>d.setHours(0, 0, 0, 0)\<close>: the time value of the local midnight of \<open>t\<close>.\<close>

definition setHours0 :: "int \<Rightarrow> time_value \<Rightarrow> time_value" where
  "setHours0 tz t = LocalDay tz t * msPerDay - tz"

text \<open>
  The proleptic Gregorian calendar on day numbers, months counted from 1: the day number of
  a civil date and the civil date of a day number.
\<close>

definition days_from_civil :: "int \<Rightarrow> int \<Rightarrow> int \<Rightarrow> int" where
  "days_from_civil y m d =
     (let y' = (if m \<le> 2 then y - 1 else y);
          era = y' div 400;
          yoe = y' - era * 400;
          mp = (if 2 < m then m - 3 else m + 9);
          doy = (153 * mp + 2) div 5 + d - 1;
          doe = yoe * 365 + yoe div 4 - yoe div 100 + doy
      in era * 146097 + doe - 719468)"

definition civil_from_days :: "int \<Rightarrow> int \<times> int \<times> int" where
  "civil_from_days z =
     (let z' = z + 719468;
          era = z' div 146097;
          doe = z' - era * 146097;
          yoe = (doe - doe div 1460 + doe div 36524 - doe div 146096) div 365;
          doy = doe - (365 * yoe + yoe div 4 - yoe div 100);
          mp = (5 * doy + 2) div 153;
          d = doy - (153 * mp + 2) div 5 + 1;
          m = (if mp < 10 then mp + 3 else mp - 9)
      in (yoe + era * 400 + (if m \<le> 2 then 1 else 0), m, d))"

text \<open>
  \<open>MakeDay\<close> of the language specification: months are counted from 0 and carry into the
  year, days of the month carry into the neighbouring months.
\<close>

definition MakeDay :: "int \<Rightarrow> int \<Rightarrow> int \<Rightarrow> int" where
  "MakeDay year month dt = days_from_civil (year + month div 12) (month mod 12 + 1) 1 + dt - 1"

text \<open>\<^verbatim>\<open>new Date(year, month, day)\<close>: local midnight of that date; years 0 to 99 mean 1900 to 1999.\<close>

definition newDate :: "int \<Rightarrow> int \<Rightarrow> int \<Rightarrow> int \<Rightarrow> time_value" where
  "newDate tz year month day =
     MakeDay (if 0 \<le> year \<and> year \<le> 99 then 1900 + year else year) month day * msPerDay - tz"

definition getFullYear :: "int \<Rightarrow> time_value \<Rightarrow> int" where
  "getFullYear tz t = fst (civil_from_days (LocalDay tz t))"

definition getMonth :: "int \<Rightarrow> time_value \<Rightarrow> int" where
  "getMonth tz t = fst (snd (civil_from_days (LocalDay tz t))) - 1"

definition getDate :: "int \<Rightarrow> time_value \<Rightarrow> int" where
  "getDate tz t = snd (snd (civil_from_days (LocalDay tz t)))"

text \<open>\<^verbatim>\<open>getDay\<close>: 0 is Sunday; day number 0 (1970-01-01) was a Thursday.\<close>

definition getDay :: "int \<Rightarrow> time_value \<Rightarrow> int" where
  "getDay tz t = (LocalDay tz t + 4) mod 7"

text \<open>
  \<^verbatim>\<open>d.setDate(d.getDate() + k)\<close>: the date carries into the neighbouring months, so the value
  moves by \<open>k\<close> local calendar days and keeps its time of day.
\<close>

definition addDays :: "time_value \<Rightarrow> int \<Rightarrow> time_value" where
  "addDays t k = t + k * msPerDay"

subsection \<open>Strings of numbers and dates\<close>

definition digit :: "nat \<Rightarrow> char" where
  "digit n = ''0123456789'' ! n"

text \<open>\<^verbatim>\<open>String(n)\<close> for a natural number.\<close>

fun String_nat :: "nat \<Rightarrow> string" where
  "String_nat n = (if n < 10 then [digit n] else String_nat (n div 10) @ [digit (n mod 10)])"

text \<open>Decimal digits padded with zeros on the left to a width.\<close>

definition padded :: "nat \<Rightarrow> int \<Rightarrow> string" where
  "padded w n = (let s = String_nat (nat n) in replicate (w - length s) CHR ''0'' @ s)"

text \<open>
  \<^verbatim>\<open>toISOString\<close> in UTC, \<^verbatim>\<open>YYYY-MM-DDTHH:mm:ss.sssZ\<close>; a year outside 0 to 9999 is written with a
  sign and six digits.
\<close>

definition toISOString :: "time_value \<Rightarrow> string" where
  "toISOString t =
     (let (y, m, d) = civil_from_days (t div msPerDay);
          ms = t mod msPerDay;
          year = (if 0 \<le> y \<and> y \<le> 9999 then padded 4 y
                  else (if y < 0 then ''-'' else ''+'') @ padded 6 \<bar>y\<bar>)
      in year @ ''-'' @ padded 2 m @ ''-'' @ padded 2 d @ ''T'' @ padded 2 (ms div 3600000)
         @ '':'' @ padded 2 (ms div 60000 mod 60) @ '':'' @ padded 2 (ms div 1000 mod 60)
         @ ''.'' @ padded 3 (ms mod 1000) @ ''Z'')"

text \<open>\<^verbatim>\<open>toDateString\<close> in local time, as in \<^verbatim>\<open>Mon Mar 04 2024\<close>.\<close>

definition toDateString :: "int \<Rightarrow> time_value \<Rightarrow> string" where
  "toDateString tz t =
     (let (y, m, d) = civil_from_days (LocalDay tz t)
      in [''Sun'', ''Mon'', ''Tue'', ''Wed'', ''Thu'', ''Fri'', ''Sat''] ! nat (getDay tz t) @ '' ''
         @ [''Jan'', ''Feb'', ''Mar'', ''Apr'', ''May'', ''Jun'', ''Jul'', ''Aug'', ''Sep'', ''Oct'',
            ''Nov'', ''Dec''] ! nat (m - 1) @ '' '' @ padded 2 d @ '' ''
         @ (if y < 0 then ''-'' else []) @ padded 4 \<bar>y\<bar>)"

section \<open>The analytics handler of the server\<close>

text \<open>
  \<^verbatim>\<open>src/backend/server.js\<close>, \<^verbatim>\<open>app.get('/habits/:id/analytics')\<close>. The rows of the two
  tables carry the columns the handler reads.
\<close>

record habit =
  habit_id :: nat
  habit_startDate :: time_value

record habitLog =
  habitId :: nat
  date :: time_value
  completed :: bool

record stats =
  currentStreak :: nat
  longestStreak :: nat
  totalCompletions :: nat
  completionRate :: int

text \<open>The clock and time zone of the machine the code runs on.\<close>

record runtime =
  tzOffset :: int
  now :: time_value

datatype http_error = NotFound

text \<open>
  \<^verbatim>\<open>prisma.habit.findUnique({ where: { id } })\<close> and
  \<^verbatim>\<open>prisma.habitLog.findMany({ where: { habitId, completed: true }, orderBy: { date: 'asc' } })\<close>.
\<close>

definition findUnique :: "habit list \<Rightarrow> nat \<Rightarrow> habit option" where
  "findUnique habits i = find (\<lambda>h. habit_id h = i) habits"

definition findMany :: "habitLog list \<Rightarrow> nat \<Rightarrow> habitLog list" where
  "findMany table i = sort_key date (filter (\<lambda>l. habitId l = i \<and> completed l) table)"

text \<open>\<^verbatim>\<open>Math.round((curr - prev) / (1000 * 60 * 60 * 24))\<close>\<close>

definition diffInDays :: "time_value \<Rightarrow> time_value \<Rightarrow> int" where
  "diffInDays prev cur = Math_round (js_div (js_sub (of_int cur) (of_int prev)) MS_PER_DAY)"

text \<open>
  The loop \<^verbatim>\<open>for (let i = 1; i < logs.length; i++)\<close> over the dates of the logs, with the
  variables \<^verbatim>\<open>streak\<close> and \<^verbatim>\<open>longestStreak\<close> as state.
\<close>

function streak_loop :: "time_value list \<Rightarrow> nat \<Rightarrow> nat \<Rightarrow> nat \<Rightarrow> nat \<times> nat" where
  "streak_loop dates i streak longest =
     (if i < length dates then
        (if diffInDays (dates ! (i - 1)) (dates ! i) = 1
         then streak_loop dates (i + 1) (streak + 1) longest
         else streak_loop dates (i + 1) 1 (if longest < streak then streak else longest))
      else (streak, longest))"
  by pat_completeness auto
termination
  by (relation "measure (\<lambda>(dates, i, streak, longest). length dates - i)") auto

text \<open>The pair \<open>(currentStreak, longestStreak)\<close> the handler computes from the sorted dates.\<close>

definition streaks :: "time_value list \<Rightarrow> nat \<times> nat" where
  "streaks dates =
     (if 0 < length dates then
        (case streak_loop dates 1 1 0 of
           (streak, longest) \<Rightarrow> (streak, Math_max longest streak))
      else (0, 0))"

text \<open>
  \<^verbatim>\<open>diffMs = today.setHours(0, 0, 0, 0) - start.setHours(0, 0, 0, 0)\<close> and
  \<^verbatim>\<open>totalDays = diffMs >= 0 ? Math.floor(diffMs / (1000 * 60 * 60 * 24)) + 1 : 0\<close>.
\<close>

definition diffMs :: "runtime \<Rightarrow> time_value \<Rightarrow> rat" where
  "diffMs rt start =
     js_sub (of_int (setHours0 (tzOffset rt) (now rt))) (of_int (setHours0 (tzOffset rt) start))"

definition totalDays :: "runtime \<Rightarrow> time_value \<Rightarrow> rat" where
  "totalDays rt start =
     (if 0 \<le> diffMs rt start
      then js_add (of_int (Math_floor (js_div (diffMs rt start) MS_PER_DAY))) 1
      else 0)"

text \<open>\<^verbatim>\<open>totalDays > 0 ? Math.round((logs.length / totalDays) * 100) : 0\<close>\<close>

definition completion_rate :: "runtime \<Rightarrow> time_value \<Rightarrow> nat \<Rightarrow> int" where
  "completion_rate rt start n =
     (if 0 < totalDays rt start
      then Math_round (js_mul (js_div (of_nat n) (totalDays rt start)) 100)
      else 0)"

definition analytics_handler ::
  "runtime \<Rightarrow> habit list \<Rightarrow> habitLog list \<Rightarrow> nat \<Rightarrow> http_error + habitLog list \<times> stats" where
  "analytics_handler rt habits table i =
     (case findUnique habits i of
        None \<Rightarrow> Inl NotFound
      | Some h \<Rightarrow>
          (let logs = findMany table i;
               (current, longest) = streaks (map date logs)
           in Inr (logs,
                \<lparr>currentStreak = current, longestStreak = longest,
                 totalCompletions = length logs,
                 completionRate = completion_rate rt (habit_startDate h) (length logs)\<rparr>)))"

section \<open>The chart data of the client\<close>

text \<open>
  The derived constants \<^verbatim>\<open>weeklyData\<close>, \<^verbatim>\<open>monthlyData\<close> and \<^verbatim>\<open>calendarCells\<close> of the \<^verbatim>\<open>App\<close>
  component. The browser adds to the clock and time zone the parser behind
  \<^verbatim>\<open>new Date(string)\<close>, which yields a time value or an invalid date (\<open>None\<close>), and the
  formatter behind \<^verbatim>\<open>toLocaleDateString(undefined, { day: '2-digit', month: '2-digit' })\<close>;
  both depend on the browser and its locale and are left open.
\<close>

record browser = runtime +
  parseDate :: "string \<Rightarrow> time_value option"
  toLocaleDateString :: "time_value \<Rightarrow> string"

record Habit =
  Habit_id :: nat
  title :: string
  frequency :: string
  startDate :: string

record bar =
  bar_day :: string
  bar_value :: nat

record point =
  point_label :: string
  point_value :: nat

datatype status = Completed | Missed | NotTracked | Empty

record cell =
  cell_label :: string
  cell_status :: status

definition weekdayLabels :: "string list" where
  "weekdayLabels = [''Mon'', ''Tue'', ''Wed'', ''Thu'', ''Fri'', ''Sat'', ''Sun'']"

subsection \<open>weeklyData\<close>

text \<open>\<^verbatim>\<open>const idx = (jsDay + 6) % 7\<close> for \<^verbatim>\<open>jsDay = d.getDay()\<close>\<close>

definition weekday_idx :: "int \<Rightarrow> time_value \<Rightarrow> nat" where
  "weekday_idx tz d = nat ((getDay tz d + 6) mod 7)"

text \<open>The body of \<^verbatim>\<open>analyticsLogs.forEach\<close>: an invalid date returns early.\<close>

definition count_log :: "('a browser_scheme) \<Rightarrow> string \<Rightarrow> nat list \<Rightarrow> nat list" where
  "count_log br dateStr counts =
     (case parseDate br dateStr of
        None \<Rightarrow> counts
      | Some d \<Rightarrow> (let idx = weekday_idx (tzOffset br) d in counts[idx := counts ! idx + 1]))"

definition weeklyData :: "('a browser_scheme) \<Rightarrow> stats option \<Rightarrow> string list \<Rightarrow> bar list" where
  "weeklyData br analytics analyticsLogs =
     (if analytics \<noteq> None \<and> length analyticsLogs \<noteq> 0 then
        (let counts = fold (count_log br) analyticsLogs [0, 0, 0, 0, 0, 0, 0]
         in map (\<lambda>(day, i). \<lparr>bar_day = day, bar_value = counts ! i\<rparr>)
              (zip weekdayLabels [0..<length weekdayLabels]))
      else [])"

subsection \<open>monthlyData\<close>

text \<open>\<^verbatim>\<open>.filter(Boolean)\<close> on strings and \<^verbatim>\<open>null\<close>: \<^verbatim>\<open>null\<close> and the empty string are dropped.\<close>

definition filter_Boolean :: "string option list \<Rightarrow> string list" where
  "filter_Boolean xs = map the (filter (\<lambda>x. x \<noteq> None \<and> x \<noteq> Some []) xs)"

definition completedSet :: "('a browser_scheme) \<Rightarrow> string list \<Rightarrow> string set" where
  "completedSet br analyticsLogs =
     set (filter_Boolean
       (map (\<lambda>d. case parseDate br d of
                    None \<Rightarrow> None
                  | Some dt \<Rightarrow> Some (toDateString (tzOffset br) dt)) analyticsLogs))"

text \<open>The loop \<^verbatim>\<open>for (let i = 29; i >= 0; i--)\<close>.\<close>

function trailing_loop ::
  "('a browser_scheme) \<Rightarrow> time_value \<Rightarrow> string set \<Rightarrow> int \<Rightarrow> point list \<Rightarrow> point list" where
  "trailing_loop br today cset i data =
     (if 0 \<le> i then
        (let d = addDays today (- i)
         in trailing_loop br today cset (i - 1)
              (data @ [\<lparr>point_label = toLocaleDateString br d,
                        point_value = (if toDateString (tzOffset br) d \<in> cset then 1 else 0)\<rparr>]))
      else data)"
  by pat_completeness auto
termination
  by (relation "measure (\<lambda>(br, today, cset, i, data). nat (i + 1))") auto

definition monthlyData :: "('a browser_scheme) \<Rightarrow> stats option \<Rightarrow> string list \<Rightarrow> point list" where
  "monthlyData br analytics analyticsLogs =
     (if analytics \<noteq> None \<and> length analyticsLogs \<noteq> 0 then
        (let today = setHours0 (tzOffset br) (now br)
         in trailing_loop br today (completedSet br analyticsLogs) 29 [])
      else [])"

subsection \<open>calendarCells\<close>

text \<open>The local midnight of today, and the month grid it selects.\<close>

definition today0 :: "('a runtime_scheme) \<Rightarrow> time_value" where
  "today0 rt = setHours0 (tzOffset rt) (now rt)"

definition firstOfMonth :: "('a runtime_scheme) \<Rightarrow> time_value" where
  "firstOfMonth rt =
     newDate (tzOffset rt) (getFullYear (tzOffset rt) (today0 rt)) (getMonth (tzOffset rt) (today0 rt)) 1"

definition daysInMonth :: "('a runtime_scheme) \<Rightarrow> int" where
  "daysInMonth rt =
     getDate (tzOffset rt)
       (newDate (tzOffset rt) (getFullYear (tzOffset rt) (today0 rt))
          (getMonth (tzOffset rt) (today0 rt) + 1) 0)"

text \<open>\<^verbatim>\<open>const offset = (startWeekday + 6) % 7\<close>, Monday first.\<close>

definition month_offset :: "('a runtime_scheme) \<Rightarrow> int" where
  "month_offset rt = (getDay (tzOffset rt) (firstOfMonth rt) + 6) mod 7"

text \<open>The set of keys of the logs; an invalid date contributes the empty string.\<close>

definition completionSet :: "('a browser_scheme) \<Rightarrow> string list \<Rightarrow> string set" where
  "completionSet br analyticsLogs =
     set (map (\<lambda>d. case parseDate br d of
                    None \<Rightarrow> []
                  | Some dt \<Rightarrow> take 10 (toISOString dt)) analyticsLogs)"

text \<open>
  \<^verbatim>\<open>habitStart\<close>: the parsed start date moved to local midnight; an invalid date stays
  invalid, and every comparison with it is false.
\<close>

definition habitStart :: "('a browser_scheme) \<Rightarrow> Habit \<Rightarrow> time_value option" where
  "habitStart br h = map_option (setHours0 (tzOffset br)) (parseDate br (startDate h))"

definition date_less :: "time_value \<Rightarrow> time_value option \<Rightarrow> bool" where
  "date_less d other = (case other of None \<Rightarrow> False | Some t \<Rightarrow> d < t)"

text \<open>The date \<^verbatim>\<open>d\<close> of a day of the month and its key \<^verbatim>\<open>d.toISOString().slice(0, 10)\<close>.\<close>

definition day_date :: "('a runtime_scheme) \<Rightarrow> int \<Rightarrow> time_value" where
  "day_date rt day =
     setHours0 (tzOffset rt)
       (newDate (tzOffset rt) (getFullYear (tzOffset rt) (today0 rt))
          (getMonth (tzOffset rt) (today0 rt)) day)"

definition day_key :: "('a runtime_scheme) \<Rightarrow> int \<Rightarrow> string" where
  "day_key rt day = take 10 (toISOString (day_date rt day))"

text \<open>The status chain of the loop body.\<close>

definition day_status :: "('a browser_scheme) \<Rightarrow> Habit \<Rightarrow> string list \<Rightarrow> int \<Rightarrow> status" where
  "day_status br h analyticsLogs day =
     (if date_less (day_date br day) (habitStart br h) \<or> today0 br < day_date br day then NotTracked
      else if day_key br day \<in> completionSet br analyticsLogs then Completed
      else Missed)"

text \<open>The loops \<^verbatim>\<open>for (let i = 0; i < offset; i++)\<close> and \<^verbatim>\<open>for (let day = 1; day <= daysInMonth; day++)\<close>.\<close>

function push_empty :: "int \<Rightarrow> int \<Rightarrow> cell list \<Rightarrow> cell list" where
  "push_empty i offset cells =
     (if i < offset
      then push_empty (i + 1) offset (cells @ [\<lparr>cell_label = [], cell_status = Empty\<rparr>])
      else cells)"
  by pat_completeness auto
termination
  by (relation "measure (\<lambda>(i, offset, cells). nat (offset - i))") auto

function push_days ::
  "('a browser_scheme) \<Rightarrow> Habit \<Rightarrow> string list \<Rightarrow> int \<Rightarrow> cell list \<Rightarrow> cell list" where
  "push_days br h analyticsLogs day cells =
     (if day \<le> daysInMonth br
      then push_days br h analyticsLogs (day + 1)
             (cells @ [\<lparr>cell_label = String_nat (nat day),
                        cell_status = day_status br h analyticsLogs day\<rparr>])
      else cells)"
  by pat_completeness auto
termination
  by (relation "measure (\<lambda>(br, h, analyticsLogs, day, cells). nat (daysInMonth br + 1 - day))") auto

definition calendarCells ::
  "('a browser_scheme) \<Rightarrow> stats option \<Rightarrow> Habit option \<Rightarrow> string list \<Rightarrow> cell list" where
  "calendarCells br analytics selectedHabit analyticsLogs =
     (case (analytics, selectedHabit) of
        (Some a, Some h) \<Rightarrow> push_days br h analyticsLogs 1 (push_empty 0 (month_offset br) [])
      | _ \<Rightarrow> [])"

subsection \<open>From the database to the charts\<close>

text \<open>
  \<^verbatim>\<open>loadAnalytics\<close> stores the \<^verbatim>\<open>stats\<close> of the response and the dates of its logs as strings;
  a date travels in the response as its \<^verbatim>\<open>toISOString\<close>. The combined result is the stored
  statistics with the three charts derived from them.
\<close>

record analyticsResult =
  result_stats :: stats
  weeklyBuckets :: "bar list"
  trailingWindow :: "point list"
  calendar :: "cell list"

definition computeAnalytics ::
  "runtime \<Rightarrow> ('a browser_scheme) \<Rightarrow> habit list \<Rightarrow> habitLog list \<Rightarrow> Habit
     \<Rightarrow> http_error + analyticsResult" where
  "computeAnalytics server br habits table h =
     (case analytics_handler server habits table (Habit_id h) of
        Inl e \<Rightarrow> Inl e
      | Inr (logs, st) \<Rightarrow>
          (let analyticsLogs = map (\<lambda>log. toISOString (date log)) logs
           in Inr \<lparr>result_stats = st,
                   weeklyBuckets = weeklyData br (Some st) analyticsLogs,
                   trailingWindow = monthlyData br (Some st) analyticsLogs,
                   calendar = calendarCells br (Some st) (Some h) analyticsLogs\<rparr>))"

section \<open>The specification's formulations\<close>

text \<open>The time value of 00:00 UTC on a day number: what a date-only log carries.\<close>

definition midnight :: "int \<Rightarrow> time_value" where
  "midnight d = d * msPerDay"

text \<open>
  The streak calculator in the specification's words, on date-only values given as day
  numbers: walk the adjacent pairs with a running counter, extend the run when the whole-day
  difference \<open>cur - prev\<close> is exactly 1, otherwise fold the run into the longest streak and
  reset the counter to 1; fold the final run into the longest streak.
\<close>

fun walk_pairs :: "int list \<Rightarrow> nat \<Rightarrow> nat \<Rightarrow> nat \<times> nat" where
  "walk_pairs (prev # cur # rest) running longest =
     (if cur - prev = 1
      then walk_pairs (cur # rest) (running + 1) longest
      else walk_pairs (cur # rest) 1 (max longest running))"
| "walk_pairs [x] running longest = (running, longest)"
| "walk_pairs [] running longest = (running, longest)"

definition spec_streaks :: "int list \<Rightarrow> nat \<times> nat" where
  "spec_streaks days =
     (case walk_pairs days (if days = [] then 0 else 1) 0 of
        (running, longest) \<Rightarrow> (running, max longest running))"

text \<open>
  The completion rate in the specification's words, on exact numbers: the eligible days
  between two date-only time values, and the percentage rounded to the nearest integer,
  ties away from zero.
\<close>

definition round_half_away :: "rat \<Rightarrow> int" where
  "round_half_away x = (if 0 \<le> x then \<lfloor>x + 1 / 2\<rfloor> else \<lceil>x - 1 / 2\<rceil>)"

definition spec_eligibleDays :: "time_value \<Rightarrow> time_value \<Rightarrow> int" where
  "spec_eligibleDays today start = max 0 (\<lfloor>of_int (today - start) / (86400000 :: rat)\<rfloor> + 1)"

definition spec_completionRate :: "time_value \<Rightarrow> time_value \<Rightarrow> nat \<Rightarrow> int" where
  "spec_completionRate today start n =
     (if 0 < spec_eligibleDays today start
      then round_half_away (100 * of_nat n / of_int (spec_eligibleDays today start))
      else 0)"


text \<open>
  The status of a day of the month grid in the specification's words, on day numbers:
  not tracked if the day is before the start date or strictly after today, completed if the
  day is in the set of completion dates, missed otherwise.
\<close>

definition spec_day_status :: "int \<Rightarrow> int \<Rightarrow> int set \<Rightarrow> int \<Rightarrow> status" where
  "spec_day_status start today completedDays d =
     (if d < start \<or> today < d then NotTracked
      else if d \<in> completedDays then Completed
      else Missed)"

section \<open>Auxiliary notions and sample data\<close>

text \<open>Whether a log string parses to a date that falls into weekday bucket \<open>i\<close>.\<close>

definition counted :: "('a browser_scheme) \<Rightarrow> nat \<Rightarrow> string \<Rightarrow> bool" where
  "counted br i s =
     (case parseDate br s of None \<Rightarrow> False | Some d \<Rightarrow> weekday_idx (tzOffset br) d = i)"

text \<open>Whether a log string parses to a valid date.\<close>

definition parses :: "('a browser_scheme) \<Rightarrow> string \<Rightarrow> bool" where
  "parses br s \<longleftrightarrow> parseDate br s \<noteq> None"

text \<open>
  A browser in UTC at 2024-03-15T12:00Z whose parser knows two log dates, Monday the 4th and
  Thursday the 14th of March 2024, and whose labels are day/month; statistics and a habit
  started on the 4th.
\<close>

definition sample_parse :: "string \<Rightarrow> time_value option" where
  "sample_parse =
     map_of [(''2024-03-04T00:00:00.000Z'', 1709510400000),
             (''2024-03-14T00:00:00.000Z'', 1710374400000)]"

definition sample_locale :: "time_value \<Rightarrow> string" where
  "sample_locale t = padded 2 (getDate 0 t) @ ''/'' @ padded 2 (getMonth 0 t + 1)"

definition sample_browser :: browser where
  "sample_browser =
     \<lparr>tzOffset = 0, now = 1710504000000, parseDate = sample_parse,
      toLocaleDateString = sample_locale\<rparr>"

definition sample_stats :: stats where
  "sample_stats =
     \<lparr>currentStreak = 1, longestStreak = 1, totalCompletions = 2, completionRate = 17\<rparr>"

definition sample_habit :: Habit where
  "sample_habit =
     \<lparr>Habit_id = 1, title = ''Run'', frequency = ''daily'',
      startDate = ''2024-03-04T00:00:00.000Z''\<rparr>"

text \<open>
  A browser at UTC+05:30 on 2024-03-15 at noon local time, with a habit started on
  2024-03-01 and one log on 2024-03-10; and a browser at UTC-05:00 on 2024-03-15 at noon local
  time, with a habit started on 2024-03-05. The dates are date-only values, stored as
  midnight UTC.
\<close>

definition east_parse :: "string \<Rightarrow> time_value option" where
  "east_parse =
     map_of [(''2024-03-01T00:00:00.000Z'', 1709251200000),
             (''2024-03-10T00:00:00.000Z'', 1710028800000)]"

definition east_browser :: browser where
  "east_browser =
     \<lparr>tzOffset = 19800000, now = 1710484200000, parseDate = east_parse,
      toLocaleDateString = sample_locale\<rparr>"

definition east_habit :: Habit where
  "east_habit =
     \<lparr>Habit_id = 1, title = ''Run'', frequency = ''daily'',
      startDate = ''2024-03-01T00:00:00.000Z''\<rparr>"

definition west_parse :: "string \<Rightarrow> time_value option" where
  "west_parse = map_of [(''2024-03-05T00:00:00.000Z'', 1709596800000)]"

definition west_browser :: browser where
  "west_browser =
     \<lparr>tzOffset = - 18000000, now = 1710522000000, parseDate = west_parse,
      toLocaleDateString = sample_locale\<rparr>"

definition west_habit :: Habit where
  "west_habit =
     \<lparr>Habit_id = 1, title = ''Run'', frequency = ''daily'',
      startDate = ''2024-03-05T00:00:00.000Z''\<rparr>"

section \<open>Properties of the number model\<close>

text \<open>The exponent brackets its argument, and rounding to binary64 is monotone.\<close>

lemma bitlen_powi:
  assumes "0 < a"
  shows "(2::rat) powi (bitlen a - 1) \<le> of_int a" "of_int a < (2::rat) powi (bitlen a)"
proof -
  from bitlen_bounds[OF assms] have 1: "2 ^ nat (bitlen a - 1) \<le> a" and 2: "a < 2 ^ nat (bitlen a)" by auto
  have ge: "1 \<le> bitlen a" using assms by (auto simp: bitlen_alt_def)
  from 1 have "(of_int (2 ^ nat (bitlen a - 1)) :: rat) \<le> of_int a" by (simp only: of_int_le_iff)
  then show "(2::rat) powi (bitlen a - 1) \<le> of_int a" using ge by (simp add: power_int_def)
  from 2 have "(of_int a :: rat) < of_int (2 ^ nat (bitlen a))" by (simp only: of_int_less_iff)
  then show "of_int a < (2::rat) powi (bitlen a)" using ge by (simp add: power_int_def)
qed

lemma expo_bounds:
  assumes "0 < q"
  shows "2 powi (expo q) \<le> q \<and> q < 2 powi (expo q + 1)"
proof -
  obtain a b where ab: "quotient_of q = (a, b)" by (cases "quotient_of q")
  then have q: "q = of_int a / of_int b" and b: "0 < b" 
    by (auto simp: quotient_of_div quotient_of_denom_pos)
  from assms q b have a: "0 < a" by (simp add: zero_less_divide_iff)
  define e0 where "e0 = bitlen a - bitlen b - 1"
  have eq1: "bitlen a - 1 - bitlen b = e0" and eq2: "bitlen a - (bitlen b - 1) = e0 + 1 + 1"
    by (simp_all add: e0_def)
  have "(2::rat) powi (bitlen a - 1) / 2 powi (bitlen b) < of_int a / of_int b"
    using bitlen_powi[OF a] bitlen_powi[OF b] b by (intro frac_less2) auto
  moreover have "(2::rat) powi (bitlen a - 1) / 2 powi (bitlen b) = 2 powi (bitlen a - 1 - bitlen b)"
    by (simp add: power_int_diff)
  ultimately have lo': "(2::rat) powi e0 < q" by (simp add: q eq1)
  have "of_int a / of_int b < (2::rat) powi (bitlen a) / 2 powi (bitlen b - 1)"
    using bitlen_powi[OF a] bitlen_powi[OF b] a by (intro frac_less) auto
  moreover have "(2::rat) powi (bitlen a) / 2 powi (bitlen b - 1) = 2 powi (bitlen a - (bitlen b - 1))"
    by (simp add: power_int_diff)
  ultimately have hi': "q < (2::rat) powi (e0 + 1 + 1)" by (simp add: q eq2)
  have e: "expo q = (if 2 powi (e0 + 1) \<le> q then e0 + 1 else e0)"
    by (simp add: expo_def ab Let_def e0_def)
  show ?thesis
  proof (cases "2 powi (e0 + 1) \<le> q")
    case True
    then have "expo q = e0 + 1" using e by simp
    then show ?thesis using hi' True by simp
  next
    case False
    then have "expo q = e0" using e by simp
    then show ?thesis using lo' False by simp
  qed
qed

lemma expo_mono:
  assumes "0 < q" "q \<le> q'"
  shows "expo q \<le> expo q'"
proof (rule ccontr)
  assume "\<not> expo q \<le> expo q'"
  then have "expo q' + 1 \<le> expo q" by simp
  then have "(2::rat) powi (expo q' + 1) \<le> 2 powi (expo q)"
    by (intro power_int_increasing) auto
  with expo_bounds[of q] expo_bounds[of q'] assms show False by auto
qed

lemma round_half_even_bounds:
  "of_int (round_half_even x) - 1 / 2 \<le> x" "x \<le> of_int (round_half_even x) + 1 / 2"
  unfolding round_half_even_def Let_def by (auto; linarith)+

lemma round_half_even_of_int [simp]: "round_half_even (of_int n) = n"
  by (simp add: round_half_even_def)

lemma round_half_even_mono:
  assumes "x \<le> y"
  shows "round_half_even x \<le> round_half_even y"
proof -
  have "\<lfloor>x\<rfloor> \<le> \<lfloor>y\<rfloor>" using assms by (rule floor_mono)
  then consider "\<lfloor>x\<rfloor> = \<lfloor>y\<rfloor>" | "\<lfloor>x\<rfloor> + 1 \<le> \<lfloor>y\<rfloor>" by linarith
  then show ?thesis
  proof cases
    case 1
    then show ?thesis using assms unfolding round_half_even_def Let_def by auto
  next
    case 2
    have "round_half_even x \<le> \<lfloor>x\<rfloor> + 1" unfolding round_half_even_def Let_def by auto
    moreover have "\<lfloor>y\<rfloor> \<le> round_half_even y" unfolding round_half_even_def Let_def by auto
    ultimately show ?thesis using 2 by linarith
  qed
qed

lemma pw_add: "(2::rat) powi a * 2 powi b = 2 powi (a + b)"
  by (simp add: power_int_add)

lemma scaled_range:
  assumes "0 < q"
  shows "2 ^ 52 \<le> q * 2 powi (52 - expo q)" "q * 2 powi (52 - expo q) < 2 ^ 53"
proof -
  let ?s = "(2::rat) powi (52 - expo q)"
  have s: "0 < ?s" by simp
  have "2 powi (expo q) * ?s \<le> q * ?s"
    using expo_bounds[OF assms] s by (intro mult_right_mono) auto
  moreover have "2 powi (expo q) * ?s = 2 ^ 52"
    by (simp add: pw_add)
  ultimately show "2 ^ 52 \<le> q * ?s" by simp
  have "q * ?s < 2 powi (expo q + 1) * ?s"
    using expo_bounds[OF assms] s by (intro mult_strict_right_mono) auto
  moreover have "2 powi (expo q + 1) * ?s = 2 ^ 53"
    by (simp add: pw_add)
  ultimately show "q * ?s < 2 ^ 53" by simp
qed

lemma mantissa_range:
  assumes "0 < q"
  shows "2 ^ 52 \<le> round_half_even (q * 2 powi (52 - expo q))"
    "round_half_even (q * 2 powi (52 - expo q)) \<le> 2 ^ 53"
proof -
  let ?x = "q * 2 powi (52 - expo q)"
  have "round_half_even (of_int (2 ^ 52)) \<le> round_half_even ?x"
    using scaled_range(1)[OF assms] by (intro round_half_even_mono) simp
  then show "2 ^ 52 \<le> round_half_even ?x" by (simp only: round_half_even_of_int)
  have "round_half_even ?x \<le> round_half_even (of_int (2 ^ 53))"
    using scaled_range(2)[OF assms] by (intro round_half_even_mono) simp
  then show "round_half_even ?x \<le> 2 ^ 53" by (simp only: round_half_even_of_int)
qed

lemma fl_pos_bounds:
  assumes "0 < q"
  shows "2 powi (expo q) \<le> fl_pos q" "fl_pos q \<le> 2 powi (expo q + 1)"
proof -
  let ?m = "round_half_even (q * 2 powi (52 - expo q))"
  let ?t = "(2::rat) powi (expo q - 52)"
  have t: "0 \<le> ?t" by simp
  have f: "fl_pos q = of_int ?m * ?t" by (simp add: fl_pos_def Let_def)
  have m1: "(2::rat) powi 52 \<le> of_int ?m"
    using mantissa_range(1)[OF assms] by simp
  have m2: "of_int ?m \<le> (2::rat) powi 53"
    using mantissa_range(2)[OF assms] by simp
  have b1: "2 powi 52 * ?t = 2 powi (expo q)" by (simp only: pw_add) simp
  have "53 + (expo q - 52) = expo q + 1" by simp
  then have b2: "2 powi 53 * ?t = 2 powi (expo q + 1)" by (simp only: pw_add)
  from mult_right_mono[OF m1 t] show "2 powi (expo q) \<le> fl_pos q" unfolding f b1 .
  from mult_right_mono[OF m2 t] show "fl_pos q \<le> 2 powi (expo q + 1)" unfolding f b2 .
qed

lemma fl_pos_pos: "0 < q \<Longrightarrow> 0 < fl_pos q"
proof -
  assume "0 < q"
  then have "2 powi expo q \<le> fl_pos q" by (rule fl_pos_bounds)
  moreover have "(0::rat) < 2 powi expo q" by simp
  ultimately show ?thesis by (rule less_le_trans [rotated])
qed

lemma fl_pos_mono:
  assumes "0 < q" "q \<le> q'"
  shows "fl_pos q \<le> fl_pos q'"
proof -
  have q': "0 < q'" using assms by simp
  have "expo q \<le> expo q'" using assms by (rule expo_mono)
  then consider "expo q = expo q'" | "expo q + 1 \<le> expo q'" by linarith
  then show ?thesis
  proof cases
    case 1
    have "q * 2 powi (52 - expo q') \<le> q' * 2 powi (52 - expo q')"
      using assms by (intro mult_right_mono) auto
    then have "round_half_even (q * 2 powi (52 - expo q')) \<le> round_half_even (q' * 2 powi (52 - expo q'))"
      by (rule round_half_even_mono)
    then have "(of_int (round_half_even (q * 2 powi (52 - expo q'))) :: rat)
        \<le> of_int (round_half_even (q' * 2 powi (52 - expo q')))"
      by (simp only: of_int_le_iff)
    then show ?thesis unfolding fl_pos_def Let_def 1
      by (intro mult_right_mono) auto
  next
    case 2
    have "fl_pos q \<le> 2 powi (expo q + 1)" using assms(1) by (rule fl_pos_bounds)
    also have "\<dots> \<le> 2 powi (expo q')" using 2 by (intro power_int_increasing) auto
    also have "\<dots> \<le> fl_pos q'" using q' by (rule fl_pos_bounds)
    finally show ?thesis .
  qed
qed

lemma fl_mono:
  assumes "x \<le> y"
  shows "fl x \<le> fl y"
proof -
  consider "x < 0" "y < 0" | "x < 0" "y = 0" | "x < 0" "0 < y" | "x = 0" "y = 0" | "x = 0" "0 < y" | "0 < x" "0 < y"
    using assms by linarith
  then show ?thesis
  proof cases
    case 1
    then have "fl_pos (- y) \<le> fl_pos (- x)" using assms by (intro fl_pos_mono) auto
    then show ?thesis using 1 by (simp add: fl_def)
  next
    case 2
    then show ?thesis using fl_pos_pos[of "- x"] by (simp add: fl_def)
  next
    case 3
    then show ?thesis using fl_pos_pos[of "- x"] fl_pos_pos[of y] by (simp add: fl_def)
  next
    case 4
    then show ?thesis by simp
  next
    case 5
    then show ?thesis using fl_pos_pos[of y] by (simp add: fl_def)
  next
    case 6
    then show ?thesis using assms fl_pos_mono[of x y] by (simp add: fl_def)
  qed
qed

lemma Math_round_mono: "x \<le> y \<Longrightarrow> Math_round x \<le> Math_round y"
  unfolding Math_round_def by (intro floor_mono) simp

lemma fl_small: "fl 0 = 0" "fl 1 = 1" "fl 2 = 2" "fl 86400000 = 86400000" "fl 172800000 = 172800000"
  by code_simp+


section \<open>The streak calculator\<close>

lemma MS_PER_DAY_eq: "MS_PER_DAY = 86400000"
  by code_simp

lemma Math_round_small: "Math_round 0 = 0" "Math_round 1 = 1" "Math_round 2 = 2"
  by code_simp+

lemma diffInDays_midnight: "diffInDays (midnight a) (midnight b) = 1 \<longleftrightarrow> b = a + 1"
proof -
  define x :: rat where "x = of_int (midnight b) - of_int (midnight a)"
  have x: "x = of_int (b - a) * 86400000"
    by (simp add: x_def midnight_def msPerDay_def algebra_simps)
  have d: "diffInDays (midnight a) (midnight b) = Math_round (fl (fl x / 86400000))"
    by (simp add: diffInDays_def js_div_def js_sub_def MS_PER_DAY_eq x_def)
  consider "b - a = 1" | "2 \<le> b - a" | "b - a \<le> 0" by linarith
  then show ?thesis
  proof cases
    case 1
    then have "x = 86400000" by (simp add: x)
    then have "fl (fl x / 86400000) = 1" by (simp add: fl_small)
    then show ?thesis using 1 d by (simp add: Math_round_small)
  next
    case 2
    then have "(2::rat) \<le> of_int (b - a)" by linarith
    then have "172800000 \<le> x" by (simp add: x)
    then have "fl 172800000 \<le> fl x" by (rule fl_mono)
    then have "2 \<le> fl x / 86400000" by (simp add: fl_small)
    then have "fl 2 \<le> fl (fl x / 86400000)" by (rule fl_mono)
    then have "Math_round 2 \<le> Math_round (fl (fl x / 86400000))"
      unfolding fl_small by (rule Math_round_mono)
    then show ?thesis using 2 d by (simp add: Math_round_small)
  next
    case 3
    then have "of_int (b - a) \<le> (0::rat)" by linarith
    then have "x \<le> 0" by (simp add: x mult_le_0_iff)
    then have "fl x \<le> fl 0" by (rule fl_mono)
    then have "fl x / 86400000 \<le> 0" by (simp add: fl_small divide_le_0_iff)
    then have "fl (fl x / 86400000) \<le> fl 0" by (rule fl_mono)
    then have "Math_round (fl (fl x / 86400000)) \<le> Math_round 0"
      unfolding fl_small by (rule Math_round_mono)
    then show ?thesis using 3 d by (simp add: Math_round_small)
  qed
qed

lemma streak_loop_walk_pairs:
  "1 \<le> i \<Longrightarrow> i \<le> length days \<Longrightarrow>
   streak_loop (map midnight days) i streak longest
     = walk_pairs (drop (i - 1) days) streak longest"
proof (induction "length days - i" arbitrary: i streak longest)
  case 0
  then have i: "i = length days" by simp
  with "0.prems" have "days \<noteq> []" by auto
  then have "drop (i - 1) days = [last days]"
    unfolding i by (induction days) (auto simp: drop_Cons')
  then show ?case using i by (subst streak_loop.simps) simp
next
  case (Suc n)
  then have lt: "i < length days" and n: "n = length days - (i + 1)" by simp_all
  from lt Suc.prems have d1: "drop (i - 1) days = days ! (i - 1) # drop i days"
    by (metis Cons_nth_drop_Suc Suc_diff_1 less_imp_diff_less less_le_trans zero_less_one)
  from lt have d2: "drop i days = days ! i # drop (i + 1) days"
    by (simp add: Cons_nth_drop_Suc)
  from lt Suc.prems have t: "diffInDays (map midnight days ! (i - 1)) (map midnight days ! i) = 1
      \<longleftrightarrow> days ! i - days ! (i - 1) = 1"
    by (simp add: diffInDays_midnight) linarith
  have ih: "streak_loop (map midnight days) (i + 1) s l = walk_pairs (drop i days) s l" for s l
    using Suc.hyps(1)[OF n, of s l] lt by simp
  show ?case
  proof (cases "days ! i - days ! (i - 1) = 1")
    case True
    have "streak_loop (map midnight days) i streak longest
        = streak_loop (map midnight days) (i + 1) (streak + 1) longest"
      using lt True t by (subst streak_loop.simps) simp
    also have "\<dots> = walk_pairs (drop i days) (streak + 1) longest" by (rule ih)
    also have "\<dots> = walk_pairs (drop (i - 1) days) streak longest"
      unfolding d1 d2 using True by simp
    finally show ?thesis .
  next
    case False
    have "streak_loop (map midnight days) i streak longest
        = streak_loop (map midnight days) (i + 1) 1 (if longest < streak then streak else longest)"
      using lt False t by (subst streak_loop.simps) simp
    also have "\<dots> = walk_pairs (drop i days) 1 (if longest < streak then streak else longest)"
      by (rule ih)
    also have "\<dots> = walk_pairs (drop (i - 1) days) streak longest"
      unfolding d1 d2 using False by (simp add: max_def)
    finally show ?thesis .
  qed
qed

lemma streaks_eq_spec: "streaks (map midnight days) = spec_streaks days"
proof (cases "days = []")
  case True
  then show ?thesis by (simp add: streaks_def spec_streaks_def)
next
  case False
  then have "streak_loop (map midnight days) 1 1 0 = walk_pairs days 1 0"
    using streak_loop_walk_pairs[of 1 days 1 0] by (cases days) auto
  with False show ?thesis
    by (auto simp: streaks_def spec_streaks_def Math_max_def max_def split: prod.splits)
qed

text \<open>
  C1. On every sequence of date-only completion dates, and so on every ascending,
  deduplicated one, the handler returns the pair (currentStreak, longestStreak) that the walk
  over adjacent pairs yields: the running counter starts at 1 on a non-empty sequence and at
  0 on the empty one, a pair whose whole-day difference is exactly 1 (the later date is the
  day after the earlier one) extends the run, any other pair folds the run into the longest
  streak and resets the counter to 1, and the final run is folded in after the walk. The
  empty sequence gives (0, 0) and a sequence of one date gives (1, 1); two consecutive days
  give (2, 2) and two days with a gap give (1, 1).
\<close>

theorem streaks_walks_adjacent_pairs:
  "streaks (map midnight days) = spec_streaks days
   \<and> streaks [] = (0, 0) \<and> streaks [t] = (1, 1)
   \<and> streaks [midnight d, midnight (d + 1)] = (2, 2)
   \<and> streaks [midnight d, midnight (d + 2)] = (1, 1)"
proof (intro conjI)
  show "streaks (map midnight days) = spec_streaks days" by (rule streaks_eq_spec)
  show "streaks [] = (0, 0)" by (simp add: streaks_def)
  show "streaks [t] = (1, 1)"
    unfolding streaks_def by (subst streak_loop.simps) (simp add: Math_max_def)
  show "streaks [midnight d, midnight (d + 1)] = (2, 2)"
    using streaks_eq_spec [of "[d, d + 1]"] by (simp add: spec_streaks_def)
  show "streaks [midnight d, midnight (d + 2)] = (1, 1)"
    using streaks_eq_spec [of "[d, d + 2]"] by (simp add: spec_streaks_def)
qed

lemma walk_pairs_run:
  assumes "sorted_wrt (<) (d # rest)" "\<forall>x\<in>P. x \<le> d"
    "\<forall>j<s. d - int j \<in> P" "d - int s \<notin> P" "0 < s"
  shows "case walk_pairs (d # rest) s l of (k, m) \<Rightarrow>
           0 < k \<and> (\<forall>j<k. last (d # rest) - int j \<in> P \<union> set rest)
           \<and> last (d # rest) - int k \<notin> P \<union> set rest"
  using assms
proof (induction rest arbitrary: d P s l)
  case Nil
  then show ?case by simp
next
  case (Cons e rest)
  from Cons.prems(1) have de: "d < e" and srt: "sorted_wrt (<) (e # rest)" by auto
  let ?P = "insert e P"
  have up: "\<forall>x\<in>?P. x \<le> e" using Cons.prems(2) de by auto
  have eq: "?P \<union> set rest = P \<union> set (e # rest)" by auto
  have la: "last (d # e # rest) = last (e # rest)" by simp
  have "0 < s + 1" by simp
  show ?case
  proof (cases "e = d + 1")
    case True
    have a: "\<forall>j<s + 1. e - int j \<in> ?P"
    proof (intro allI impI)
      fix j assume "j < s + 1"
      show "e - int j \<in> ?P"
      proof (cases j)
        case 0 then show ?thesis by simp
      next
        case (Suc j')
        with \<open>j < s + 1\<close> have "j' < s" by simp
        with Cons.prems(3) have "d - int j' \<in> P" by simp
        moreover have "e - int j = d - int j'" using True Suc by simp
        ultimately show ?thesis by simp
      qed
    qed
    have b: "e - int (s + 1) \<notin> ?P" using Cons.prems(4) True by simp
    have w: "walk_pairs (d # e # rest) s l
        = walk_pairs (e # rest) (s + 1) l"
      using True by simp
    from Cons.IH[OF srt up a b \<open>0 < s + 1\<close>, of l] show ?thesis unfolding w la eq .
  next
    case False
    have a: "\<forall>j<1. e - int j \<in> ?P" by simp
    have b: "e - int 1 \<notin> ?P" using Cons.prems(2) de False by auto
    have w: "walk_pairs (d # e # rest) s l
        = walk_pairs (e # rest) 1 (max l s)"
      using False by simp
    from Cons.IH[OF srt up a b zero_less_one, of "max l s"] show ?thesis unfolding w la eq .
  qed
qed

text \<open>
  C2. For every non-empty, strictly ascending sequence of date-only completion dates,
  currentStreak is the length of the maximal run of consecutive calendar days that ends at
  the last completion date: the last \<open>current\<close> days up to that date are all completed and
  the day before them is not. Today is no argument of the calculator. Completions on the days
  1, 2, 3 and 5 give currentStreak 1 and longestStreak 3.
\<close>

theorem currentStreak_is_run_ending_at_last:
  assumes "days \<noteq> []" "sorted_wrt (<) days"
  shows "(case streaks (map midnight days) of (current, longest) \<Rightarrow>
            0 < current \<and> (\<forall>j<current. last days - int j \<in> set days)
            \<and> last days - int current \<notin> set days)
         \<and> streaks (map midnight [1, 2, 3, 5]) = (1, 3)"
proof
  from assms(1) obtain d rest where days: "days = d # rest" by (cases days) auto
  have "case walk_pairs (d # rest) 1 0 of (k, m) \<Rightarrow>
           0 < k \<and> (\<forall>j<k. last (d # rest) - int j \<in> {d} \<union> set rest)
           \<and> last (d # rest) - int k \<notin> {d} \<union> set rest"
    using assms(2) unfolding days by (intro walk_pairs_run) auto
  then show "case streaks (map midnight days) of (current, longest) \<Rightarrow>
            0 < current \<and> (\<forall>j<current. last days - int j \<in> set days)
            \<and> last days - int current \<notin> set days"
    unfolding streaks_eq_spec spec_streaks_def by (auto simp: days split: prod.splits)
  show "streaks (map midnight [1, 2, 3, 5]) = (1, 3)"
    using streaks_eq_spec [of "[1, 2, 3, 5]"] by (simp add: spec_streaks_def)
qed

theorem currentStreak_is_run_ending_at_last_witness:
  "[1, 2, 3, 5] \<noteq> ([] :: int list) \<and> sorted_wrt (<) [1, 2, 3, 5 :: int]
   \<and> streaks (map midnight [1, 2, 3, 5]) = (1, 3)
   \<and> (5::int) - int 0 \<in> set [1, 2, 3, 5] \<and> (5::int) - int 1 \<notin> set [1, 2, 3, 5]"
  using currentStreak_is_run_ending_at_last [of "[1, 2, 3, 5]"] by simp

section \<open>The completion rate\<close>

lemma js_div_mono: "0 < c \<Longrightarrow> a \<le> b \<Longrightarrow> js_div a c \<le> js_div b c"
  unfolding js_div_def by (intro fl_mono divide_right_mono) auto

lemma js_mul_mono: "0 \<le> c \<Longrightarrow> a \<le> b \<Longrightarrow> js_mul a c \<le> js_mul b c"
  unfolding js_mul_def by (intro fl_mono mult_right_mono) auto

text \<open>
  C7. For a fixed start date and today with a non-empty eligible window, one more completed
  log never lowers the completion rate.
\<close>

theorem completionRate_monotone:
  assumes "0 < totalDays rt start"
  shows "completion_rate rt start n \<le> completion_rate rt start (n + 1)"
proof -
  have "(of_nat n :: rat) \<le> of_nat (n + 1)" by simp
  then have "js_div (of_nat n) (totalDays rt start) \<le> js_div (of_nat (n + 1)) (totalDays rt start)"
    using assms by (intro js_div_mono)
  then have "js_mul (js_div (of_nat n) (totalDays rt start)) 100
      \<le> js_mul (js_div (of_nat (n + 1)) (totalDays rt start)) 100"
    by (intro js_mul_mono) auto
  then show ?thesis using assms unfolding completion_rate_def
    by (simp only: if_True Math_round_mono)
qed

theorem completionRate_monotone_witness:
  "0 < totalDays \<lparr>tzOffset = 0, now = 1707480000000\<rparr> 1704067200000
   \<and> completion_rate \<lparr>tzOffset = 0, now = 1707480000000\<rparr> 1704067200000 22
     \<le> completion_rate \<lparr>tzOffset = 0, now = 1707480000000\<rparr> 1704067200000 23"
proof -
  have h: "0 < totalDays \<lparr>tzOffset = 0, now = 1707480000000\<rparr> 1704067200000"
    by code_simp
  from completionRate_monotone [OF h, of 22] h show ?thesis by simp
qed

text \<open>
  C3. The rate is meant to be the exact percentage rounded to the nearest integer, ties away
  from zero. The handler divides first and multiplies by 100 afterwards, both in binary64:
  with 23 completed logs and a habit started 39 days before today (40 eligible days) the
  quotient 23 / 40 is rounded below 0.575, the product is 57.49999999999999 and the rate is 57,
  where the exact percentage 57.5 rounds to 58. Multiplying first, as the formula of the
  specification is written, gives 58 in binary64 as well.
\<close>

theorem completionRate_tie_23_of_40:
  "totalDays \<lparr>tzOffset = 0, now = 1707480000000\<rparr> 1704067200000 = 40
   \<and> completion_rate \<lparr>tzOffset = 0, now = 1707480000000\<rparr> 1704067200000 23 = 57
   \<and> spec_eligibleDays (setHours0 0 1707480000000) (setHours0 0 1704067200000) = 40
   \<and> spec_completionRate (setHours0 0 1707480000000) (setHours0 0 1704067200000) 23 = 58
   \<and> Math_round (js_div (js_mul 100 (of_nat 23)) 40) = 58"
  by code_simp

section \<open>The charts of the client\<close>

lemma push_empty_replicate:
  "push_empty i offset cells
     = cells @ replicate (nat (offset - i)) \<lparr>cell_label = [], cell_status = Empty\<rparr>"
proof (induction i offset cells rule: push_empty.induct)
  case (1 i offset cells)
  show ?case
  proof (cases "i < offset")
    case True
    then have n: "nat (offset - i) = Suc (nat (offset - (i + 1)))" by simp
    have "push_empty i offset cells
        = push_empty (i + 1) offset (cells @ [\<lparr>cell_label = [], cell_status = Empty\<rparr>])"
      using True by (subst push_empty.simps) simp
    also have "\<dots> = (cells @ [\<lparr>cell_label = [], cell_status = Empty\<rparr>])
        @ replicate (nat (offset - (i + 1))) \<lparr>cell_label = [], cell_status = Empty\<rparr>"
      using "1.IH"[OF True] .
    finally show ?thesis unfolding n by simp
  next
    case False
    then show ?thesis by (subst push_empty.simps) simp
  qed
qed

lemma push_days_map:
  "push_days br h logs day cells
     = cells @ map (\<lambda>d. \<lparr>cell_label = String_nat (nat d), cell_status = day_status br h logs d\<rparr>)
                 [day..daysInMonth br]"
proof (induction br h logs day cells rule: push_days.induct)
  case (1 br h logs day cells)
  show ?case
  proof (cases "day \<le> daysInMonth br")
    case True
    then have u: "[day..daysInMonth br] = day # [day + 1..daysInMonth br]"
      by (simp add: upto_rec1)
    have "push_days br h logs day cells
        = push_days br h logs (day + 1)
            (cells @ [\<lparr>cell_label = String_nat (nat day), cell_status = day_status br h logs day\<rparr>])"
      using True by (subst push_days.simps) simp
    also note "1.IH"[OF True]
    finally show ?thesis unfolding u by simp
  next
    case False
    then show ?thesis by (subst push_days.simps) simp
  qed
qed

lemma trailing_loop_map:
  "trailing_loop br today cset i data
     = data @ map (\<lambda>k. \<lparr>point_label = toLocaleDateString br (addDays today (- (i - int k))),
                          point_value = (if toDateString (tzOffset br) (addDays today (- (i - int k))) \<in> cset
                                         then 1 else 0)\<rparr>)
                 [0..<nat (i + 1)]"
proof (induction br today cset i data rule: trailing_loop.induct)
  case (1 br today cset i data)
  show ?case
  proof (cases "0 \<le> i")
    case True
    then have n: "nat (i + 1) = Suc (nat (i - 1 + 1))" by simp
    have sh: "i - 1 - int k = i - int (Suc k)" for k by simp
    have "trailing_loop br today cset i data
        = trailing_loop br today cset (i - 1)
            (data @ [\<lparr>point_label = toLocaleDateString br (addDays today (- i)),
                       point_value = (if toDateString (tzOffset br) (addDays today (- i)) \<in> cset
                                      then 1 else 0)\<rparr>])"
      using True by (subst trailing_loop.simps) (simp add: Let_def)
    also note "1.IH"[OF True refl]
    finally show ?thesis
      unfolding n sh by (simp add: upt_conv_Cons map_Suc_upt [symmetric] del: upt_Suc)
  next
    case False
    then show ?thesis by (subst trailing_loop.simps) simp
  qed
qed

lemma weekday_idx_less: "weekday_idx tz d < 7"
  by (simp add: weekday_idx_def nat_less_iff)

lemma fold_count_log:
  "length counts = 7 \<Longrightarrow>
   length (fold (count_log br) logs counts) = 7
   \<and> (\<forall>i<7. fold (count_log br) logs counts ! i
        = counts ! i + length (filter (counted br i) logs))"
proof (induction logs arbitrary: counts)
  case Nil
  then show ?case by simp
next
  case (Cons s logs)
  show ?case
  proof (cases "parseDate br s")
    case None
    then have "count_log br s counts = counts" by (simp add: count_log_def)
    moreover have "filter (counted br i) (s # logs) = filter (counted br i) logs" for i
      using None by (simp add: counted_def)
    ultimately show ?thesis using Cons.IH[OF Cons.prems] by simp
  next
    case (Some d)
    let ?idx = "weekday_idx (tzOffset br) d"
    let ?c = "counts[?idx := counts ! ?idx + 1]"
    have c: "count_log br s counts = ?c" using Some by (simp add: count_log_def Let_def)
    have len: "length ?c = 7" using Cons.prems by simp
    have idx: "?idx < 7" by (rule weekday_idx_less)
    have f: "length (filter (counted br i) (s # logs))
        = (if ?idx = i then 1 else 0) + length (filter (counted br i) logs)" for i
      using Some by (simp add: counted_def)
    have n: "?c ! i = counts ! i + (if ?idx = i then 1 else 0)" if "i < 7" for i
      using that Cons.prems by (simp add: nth_list_update)
    have step: "fold (count_log br) (s # logs) counts = fold (count_log br) logs ?c"
      by (simp add: c)
    from Cons.IH[OF len]
    have L: "length (fold (count_log br) logs ?c) = 7"
      and V: "\<forall>i<7. fold (count_log br) logs ?c ! i = ?c ! i + length (filter (counted br i) logs)"
      by blast+
    have "fold (count_log br) (s # logs) counts ! i
        = counts ! i + length (filter (counted br i) (s # logs))" if "i < 7" for i
    proof -
      have "fold (count_log br) (s # logs) counts ! i = ?c ! i + length (filter (counted br i) logs)"
        unfolding step using V that by blast
      also have "\<dots> = counts ! i + length (filter (counted br i) (s # logs))"
        unfolding f n[OF that] by simp
      finally show ?thesis .
    qed
    then show ?thesis using L unfolding step by blast
  qed
qed

lemma zip_weekdayLabels:
  "zip weekdayLabels [0..<length weekdayLabels]
     = [(''Mon'', 0), (''Tue'', 1), (''Wed'', 2), (''Thu'', 3), (''Fri'', 4), (''Sat'', 5), (''Sun'', 6)]"
  by (simp add: weekdayLabels_def upt_rec)

lemma less_7_cases: "i < 7 \<Longrightarrow> i = 0 \<or> i = 1 \<or> i = 2 \<or> i = 3 \<or> i = 4 \<or> i = 5 \<or> i = (6::nat)"
  by arith

lemma weeklyData_nonempty:
  assumes "analytics = Some a" "analyticsLogs \<noteq> []"
  shows "weeklyData br analytics analyticsLogs
     = map (\<lambda>(day, i). \<lparr>bar_day = day,
                           bar_value = length (filter (counted br i) analyticsLogs)\<rparr>)
         [(''Mon'', 0), (''Tue'', 1), (''Wed'', 2), (''Thu'', 3), (''Fri'', 4), (''Sat'', 5), (''Sun'', 6)]"
proof -
  have "length [0, 0, 0, 0, 0, 0, 0 :: nat] = 7" by simp
  from fold_count_log[OF this, of br analyticsLogs]
  have v: "\<forall>i<7. fold (count_log br) analyticsLogs [0, 0, 0, 0, 0, 0, 0] ! i
      = length (filter (counted br i) analyticsLogs)"
    by (auto dest!: less_7_cases)
  have "weeklyData br analytics analyticsLogs
     = map (\<lambda>(day, i). \<lparr>bar_day = day,
                           bar_value = fold (count_log br) analyticsLogs [0, 0, 0, 0, 0, 0, 0] ! i\<rparr>)
         [(''Mon'', 0), (''Tue'', 1), (''Wed'', 2), (''Thu'', 3), (''Fri'', 4), (''Sat'', 5), (''Sun'', 6)]"
    using assms by (simp add: weeklyData_def zip_weekdayLabels Let_def)
  then show ?thesis using v by simp
qed




lemma toDateString_nonempty: "toDateString tz t \<noteq> []"
  by (simp add: toDateString_def split: prod.splits)

lemma filter_Boolean_set:
  "s \<in> set (filter_Boolean xs) \<longleftrightarrow> s \<noteq> [] \<and> Some s \<in> set xs"
  by (induction xs) (auto simp: filter_Boolean_def)

lemma completedSet_iff:
  "s \<in> completedSet br logs \<longleftrightarrow>
     (\<exists>x\<in>set logs. case parseDate br x of None \<Rightarrow> False
                      | Some t \<Rightarrow> toDateString (tzOffset br) t = s)"
proof -
  have "Some s \<in> set (map (\<lambda>d. case parseDate br d of None \<Rightarrow> None
                  | Some dt \<Rightarrow> Some (toDateString (tzOffset br) dt)) logs)
     \<longleftrightarrow> (\<exists>x\<in>set logs. case parseDate br x of None \<Rightarrow> False
                      | Some t \<Rightarrow> toDateString (tzOffset br) t = s)"
    by (induction logs) (auto split: option.splits)
  moreover have "(\<exists>x\<in>set logs. case parseDate br x of None \<Rightarrow> False
                      | Some t \<Rightarrow> toDateString (tzOffset br) t = s) \<Longrightarrow> s \<noteq> []"
    using toDateString_nonempty by (auto split: option.splits)
  ultimately show ?thesis
    unfolding completedSet_def filter_Boolean_set by blast
qed

lemma trailing_loop_length:
  "length (trailing_loop br today cset i data) = length data + nat (i + 1)"
  unfolding trailing_loop_map by simp


lemma monthlyData_nonempty:
  assumes "analytics = Some a" "analyticsLogs \<noteq> []"
  shows "monthlyData br analytics analyticsLogs
     = trailing_loop br (today0 br) (completedSet br analyticsLogs) 29 []"
  using assms by (simp add: monthlyData_def today0_def del: trailing_loop.simps)




lemma monthlyData_guard:
  "\<not> (analytics \<noteq> None \<and> analyticsLogs \<noteq> []) \<Longrightarrow> monthlyData br analytics analyticsLogs = []"
  unfolding monthlyData_def by (auto simp del: trailing_loop.simps)

lemma weeklyData_guard:
  "\<not> (analytics \<noteq> None \<and> analyticsLogs \<noteq> []) \<Longrightarrow> weeklyData br analytics analyticsLogs = []"
  unfolding weeklyData_def by auto

text \<open>
  C10. With no logs the weekday histogram and the trailing series are the empty list; the
  histogram has its seven bars and the series its thirty points exactly when the statistics
  are loaded and the list of logs is non-empty.
\<close>
theorem charts_empty_without_logs:
  "weeklyData br analytics [] = [] \<and> monthlyData br analytics [] = []
   \<and> length (weeklyData br analytics analyticsLogs)
       = (if analytics \<noteq> None \<and> analyticsLogs \<noteq> [] then 7 else 0)
   \<and> length (monthlyData br analytics analyticsLogs)
       = (if analytics \<noteq> None \<and> analyticsLogs \<noteq> [] then 30 else 0)"
proof (intro conjI)
  show "weeklyData br analytics [] = []" by (rule weeklyData_guard) simp
  show "monthlyData br analytics [] = []" by (rule monthlyData_guard) simp
  show "length (weeklyData br analytics analyticsLogs)
       = (if analytics \<noteq> None \<and> analyticsLogs \<noteq> [] then 7 else 0)"
  proof (cases "analytics \<noteq> None \<and> analyticsLogs \<noteq> []")
    case True
    then obtain a where a: "analytics = Some a" and l: "analyticsLogs \<noteq> []" by auto
    have "length (weeklyData br analytics analyticsLogs) = 7"
      unfolding weeklyData_nonempty[OF a l] by simp
    with True show ?thesis by simp
  next
    case False
    from weeklyData_guard[OF False, of br] False show ?thesis by auto
  qed
  show "length (monthlyData br analytics analyticsLogs)
       = (if analytics \<noteq> None \<and> analyticsLogs \<noteq> [] then 30 else 0)"
  proof (cases "analytics \<noteq> None \<and> analyticsLogs \<noteq> []")
    case True
    then obtain a where a: "analytics = Some a" and l: "analyticsLogs \<noteq> []" by auto
    have "length (monthlyData br analytics analyticsLogs) = 30"
      unfolding monthlyData_nonempty[OF a l] trailing_loop_length by simp
    with True show ?thesis by simp
  next
    case False
    from monthlyData_guard[OF False, of br] False show ?thesis by auto
  qed
qed

lemma calendarCells_closed:
  "calendarCells br (Some a) (Some h) logs
     = replicate (nat (month_offset br)) \<lparr>cell_label = [], cell_status = Empty\<rparr>
       @ map (\<lambda>d. \<lparr>cell_label = String_nat (nat d), cell_status = day_status br h logs d\<rparr>)
           [1..daysInMonth br]"
  by (simp add: calendarCells_def push_days_map push_empty_replicate
      del: push_days.simps push_empty.simps)

lemma calendarCells_nth_day:
  assumes "1 \<le> day" "day \<le> daysInMonth br"
  shows "calendarCells br (Some a) (Some h) logs ! (nat (month_offset br) + nat (day - 1))
     = \<lparr>cell_label = String_nat (nat day), cell_status = day_status br h logs day\<rparr>"
proof -
  have "nat (day - 1) < length [1..daysInMonth br]" using assms by simp
  moreover have "[1..daysInMonth br] ! nat (day - 1) = day" using assms by simp
  ultimately show ?thesis unfolding calendarCells_closed by (simp add: nth_append)
qed

text \<open>
  C4. The grid is meant to mark a day completed if the day is in the completion set, and not
  tracked exactly if it is before the start date or after today. The grid compares the
  local midnight of each day with the local midnight of the start instant, and looks the day
  up under the UTC date of its local midnight, while the completion set holds the UTC dates
  of the logs. East of UTC the local midnight of a day lies on the previous UTC date: at
  UTC+05:30 a log on 10 March leaves the cell of the 10th missed and marks the cell of the
  11th completed. West of UTC the start instant lies on the previous local day: at UTC-05:00
  a habit started on 5 March has the cell of the 4th tracked (missed), not not-tracked. The
  trailing series of the same component compares local dates on both sides.
\<close>

theorem calendarCells_days_shifted:
  "parseDate east_browser ''2024-03-10T00:00:00.000Z'' = Some 1710028800000
   \<and> take 10 (toISOString 1710028800000) = ''2024-03-10''
   \<and> toDateString (tzOffset east_browser) 1710028800000 = ''Sun Mar 10 2024''
   \<and> calendarCells east_browser (Some sample_stats) (Some east_habit)
         [''2024-03-10T00:00:00.000Z''] ! 13
       = \<lparr>cell_label = ''10'', cell_status = Missed\<rparr>
   \<and> calendarCells east_browser (Some sample_stats) (Some east_habit)
         [''2024-03-10T00:00:00.000Z''] ! 14
       = \<lparr>cell_label = ''11'', cell_status = Completed\<rparr>
   \<and> spec_day_status (1709251200000 div msPerDay) (LocalDay (tzOffset east_browser) (now east_browser))
         {1710028800000 div msPerDay} (LocalDay (tzOffset east_browser) (day_date east_browser 10))
       = Completed
   \<and> spec_day_status (1709251200000 div msPerDay) (LocalDay (tzOffset east_browser) (now east_browser))
         {1710028800000 div msPerDay} (LocalDay (tzOffset east_browser) (day_date east_browser 11))
       = Missed
   \<and> parseDate west_browser (startDate west_habit) = Some 1709596800000
   \<and> take 10 (toISOString 1709596800000) = ''2024-03-05''
   \<and> calendarCells west_browser (Some sample_stats) (Some west_habit) [] ! 7
       = \<lparr>cell_label = ''4'', cell_status = Missed\<rparr>
   \<and> spec_day_status (1709596800000 div msPerDay) (LocalDay (tzOffset west_browser) (now west_browser))
         {} (LocalDay (tzOffset west_browser) (day_date west_browser 4))
       = NotTracked"
proof (intro conjI)
  have oe: "nat (month_offset east_browser) = 4" by code_simp
  have ne: "daysInMonth east_browser = 31" by code_simp
  have ow: "nat (month_offset west_browser) = 4" by code_simp
  have nw: "daysInMonth west_browser = 31" by code_simp
  have s10: "day_status east_browser east_habit [''2024-03-10T00:00:00.000Z''] 10 = Missed"
    by code_simp
  have s11: "day_status east_browser east_habit [''2024-03-10T00:00:00.000Z''] 11 = Completed"
    by code_simp
  have s4: "day_status west_browser west_habit [] 4 = Missed"
    by code_simp
  have l: "String_nat (nat 10) = ''10''" "String_nat (nat 11) = ''11''" "String_nat (nat 4) = ''4''"
    by code_simp+
  have ix: "4 + nat (10 - 1) = (13::nat)" "4 + nat (11 - 1) = (14::nat)" "4 + nat (4 - 1) = (7::nat)"
    by simp_all
  have "(1::int) \<le> 10" "10 \<le> daysInMonth east_browser" unfolding ne by simp_all
  from calendarCells_nth_day [OF this, of sample_stats east_habit "[''2024-03-10T00:00:00.000Z'']"]
  show "calendarCells east_browser (Some sample_stats) (Some east_habit)
         [''2024-03-10T00:00:00.000Z''] ! 13
       = \<lparr>cell_label = ''10'', cell_status = Missed\<rparr>"
    unfolding oe ix s10 l .
  have "(1::int) \<le> 11" "11 \<le> daysInMonth east_browser" unfolding ne by simp_all
  from calendarCells_nth_day [OF this, of sample_stats east_habit "[''2024-03-10T00:00:00.000Z'']"]
  show "calendarCells east_browser (Some sample_stats) (Some east_habit)
         [''2024-03-10T00:00:00.000Z''] ! 14
       = \<lparr>cell_label = ''11'', cell_status = Completed\<rparr>"
    unfolding oe ix s11 l .
  have "(1::int) \<le> 4" "4 \<le> daysInMonth west_browser" unfolding nw by simp_all
  from calendarCells_nth_day [OF this, of sample_stats west_habit "[]"]
  show "calendarCells west_browser (Some sample_stats) (Some west_habit) [] ! 7
       = \<lparr>cell_label = ''4'', cell_status = Missed\<rparr>"
    unfolding ow ix s4 l .
qed code_simp+

lemma fold_count_log_valid:
  "fold (count_log br) (filter (parses br) logs) counts
     = fold (count_log br) logs counts"
  by (induction logs arbitrary: counts) (auto simp: count_log_def parses_def)

lemma completedSet_valid:
  "completedSet br (filter (parses br) logs) = completedSet br logs"
proof (rule set_eqI)
  fix s
  let ?P = "\<lambda>x. case parseDate br x of None \<Rightarrow> False
                      | Some t \<Rightarrow> toDateString (tzOffset br) t = s"
  have "?P x \<Longrightarrow> parses br x" for x
    by (simp add: parses_def split: option.splits)
  then have "(\<exists>x\<in>set (filter (parses br) logs). ?P x) \<longleftrightarrow> (\<exists>x\<in>set logs. ?P x)"
    by auto
  then show "s \<in> completedSet br (filter (parses br) logs) \<longleftrightarrow> s \<in> completedSet br logs"
    unfolding completedSet_iff .
qed

lemma toISOString_nonempty: "take 10 (toISOString t) \<noteq> []"
  by (simp add: toISOString_def Let_def split: prod.splits)

lemma completionSet_valid:
  assumes "k \<noteq> []"
  shows "k \<in> completionSet br (filter (parses br) logs) \<longleftrightarrow> k \<in> completionSet br logs"
proof -
  let ?g = "\<lambda>d. case parseDate br d of None \<Rightarrow> [] | Some dt \<Rightarrow> take 10 (toISOString dt)"
  have "?g x = k \<Longrightarrow> parses br x" for x
    using assms by (auto simp: parses_def split: option.splits)
  then have "k \<in> ?g ` set (filter (parses br) logs) \<longleftrightarrow> k \<in> ?g ` set logs"
    by auto
  then show ?thesis unfolding completionSet_def set_map .
qed

lemma day_status_valid:
  "day_status br h (filter (parses br) logs) d = day_status br h logs d"
  unfolding day_status_def day_key_def
  by (simp add: completionSet_valid [OF toISOString_nonempty])

lemma calendarCells_valid:
  "calendarCells br analytics selectedHabit (filter (parses br) logs)
     = calendarCells br analytics selectedHabit logs"
proof (cases "\<exists>a h. analytics = Some a \<and> selectedHabit = Some h")
  case True
  then obtain a h where "analytics = Some a" "selectedHabit = Some h" by blast
  then show ?thesis by (simp only: calendarCells_closed day_status_valid)
next
  case False
  then show ?thesis
    by (cases analytics; cases selectedHabit) (simp_all add: calendarCells_def)
qed

text \<open>
  C9, amended. A log that does not parse to a valid date is skipped and the computation goes
  on: when at least one log is valid, the weekday histogram, the trailing series and the
  calendar grid are those of the valid logs alone. No chart computation can fail.
\<close>
theorem invalid_dates_are_skipped:
  assumes "\<exists>s\<in>set analyticsLogs. parseDate br s \<noteq> None"
  shows "weeklyData br analytics analyticsLogs
           = weeklyData br analytics (filter (parses br) analyticsLogs)
         \<and> monthlyData br analytics analyticsLogs
           = monthlyData br analytics (filter (parses br) analyticsLogs)
         \<and> calendarCells br analytics selectedHabit analyticsLogs
           = calendarCells br analytics selectedHabit
               (filter (parses br) analyticsLogs)"
proof (intro conjI)
  from assms have ne: "analyticsLogs \<noteq> []"
    and nf: "filter (parses br) analyticsLogs \<noteq> []"
    by (auto simp: filter_empty_conv parses_def)
  show "weeklyData br analytics analyticsLogs
      = weeklyData br analytics (filter (parses br) analyticsLogs)"
    unfolding weeklyData_def using ne nf by (simp add: fold_count_log_valid)
  show "monthlyData br analytics analyticsLogs
      = monthlyData br analytics (filter (parses br) analyticsLogs)"
    unfolding monthlyData_def using ne nf
    by (simp add: completedSet_valid del: trailing_loop.simps)
  show "calendarCells br analytics selectedHabit analyticsLogs
      = calendarCells br analytics selectedHabit
          (filter (parses br) analyticsLogs)"
    by (rule calendarCells_valid [symmetric])
qed

lemma sample_parse_facts:
  "parseDate sample_browser ''garbage'' = None"
  "parseDate sample_browser ''2024-03-04T00:00:00.000Z'' = Some 1709510400000"
  by code_simp+

theorem invalid_dates_are_skipped_witness:
  "(\<exists>s\<in>set [''garbage'', ''2024-03-04T00:00:00.000Z'']. parseDate sample_browser s \<noteq> None)
   \<and> weeklyData sample_browser (Some sample_stats) [''garbage'', ''2024-03-04T00:00:00.000Z'']
     = weeklyData sample_browser (Some sample_stats) [''2024-03-04T00:00:00.000Z'']"
proof -
  have h: "\<exists>s\<in>set [''garbage'', ''2024-03-04T00:00:00.000Z'']. parseDate sample_browser s \<noteq> None"
    by (simp add: sample_parse_facts)
  have f: "filter (parses sample_browser) [''garbage'', ''2024-03-04T00:00:00.000Z'']
      = [''2024-03-04T00:00:00.000Z'']"
    by (simp add: sample_parse_facts parses_def)
  from invalid_dates_are_skipped [OF h, where analytics = "Some sample_stats", THEN conjunct1]
  have "weeklyData sample_browser (Some sample_stats) [''garbage'', ''2024-03-04T00:00:00.000Z'']
     = weeklyData sample_browser (Some sample_stats) [''2024-03-04T00:00:00.000Z'']"
    unfolding f .
  with h show ?thesis by (rule conjI)
qed

text \<open>
  C9 as stated fails: with an unparsable log next to a valid one the histogram is returned,
  and it is the histogram of the valid log alone.
\<close>
theorem invalid_date_no_failure_counterexample:
  "parseDate sample_browser ''garbage'' = None
   \<and> weeklyData sample_browser (Some sample_stats) [''garbage'', ''2024-03-04T00:00:00.000Z'']
     = [\<lparr>bar_day = ''Mon'', bar_value = 1\<rparr>, \<lparr>bar_day = ''Tue'', bar_value = 0\<rparr>,
        \<lparr>bar_day = ''Wed'', bar_value = 0\<rparr>, \<lparr>bar_day = ''Thu'', bar_value = 0\<rparr>,
        \<lparr>bar_day = ''Fri'', bar_value = 0\<rparr>, \<lparr>bar_day = ''Sat'', bar_value = 0\<rparr>,
        \<lparr>bar_day = ''Sun'', bar_value = 0\<rparr>]
   \<and> weeklyData sample_browser (Some sample_stats) [''2024-03-04T00:00:00.000Z'']
     = [\<lparr>bar_day = ''Mon'', bar_value = 1\<rparr>, \<lparr>bar_day = ''Tue'', bar_value = 0\<rparr>,
        \<lparr>bar_day = ''Wed'', bar_value = 0\<rparr>, \<lparr>bar_day = ''Thu'', bar_value = 0\<rparr>,
        \<lparr>bar_day = ''Fri'', bar_value = 0\<rparr>, \<lparr>bar_day = ''Sat'', bar_value = 0\<rparr>,
        \<lparr>bar_day = ''Sun'', bar_value = 0\<rparr>]"
  by code_simp

lemma findMany_mset:
  assumes "mset table' = mset table"
    "distinct (map date (filter (\<lambda>l. habitId l = i \<and> completed l) table))"
  shows "findMany table' i = findMany table i"
proof -
  let ?P = "\<lambda>l. habitId l = i \<and> completed l"
  have fm: "filter_mset ?P (mset table') = filter_mset ?P (mset table)"
    by (simp only: assms(1))
  then have m: "mset (filter ?P table') = mset (filter ?P table)"
    by (simp only: mset_filter)
  then have s: "set (filter ?P table') = set (filter ?P table)" by (rule mset_eq_setD)
  have "inj_on date (set (filter ?P table))" using assms(2) by (simp only: distinct_map)
  then have inj: "inj_on date (set (filter ?P table'))" unfolding s .
  have "sort_key date (filter ?P table') = sort_key date (filter ?P table)"
    by (rule sort_key_inj_key_eq [OF _ inj]) (simp_all add: fm)
  then show ?thesis by (simp only: findMany_def)
qed

text \<open>
  C8. The handler reads the logs of the habit ordered by date, so for logs with distinct dates
  the response of the handler and the combined result with its three charts are the same for
  every reordering of the stored logs.
\<close>
theorem computeAnalytics_permutation_invariant:
  assumes "mset table' = mset table"
    "distinct (map date (filter (\<lambda>l. habitId l = Habit_id h \<and> completed l) table))"
  shows "analytics_handler server habits table' (Habit_id h)
           = analytics_handler server habits table (Habit_id h)
         \<and> computeAnalytics server br habits table' h = computeAnalytics server br habits table h"
  unfolding computeAnalytics_def analytics_handler_def findMany_mset [OF assms] by simp

theorem computeAnalytics_permutation_invariant_witness:
  "mset [\<lparr>habitId = 1, date = 1710374400000, completed = True\<rparr>,
         \<lparr>habitId = 1, date = 1709510400000, completed = True\<rparr>]
     = mset [\<lparr>habitId = 1, date = 1709510400000, completed = True\<rparr>,
             \<lparr>habitId = 1, date = 1710374400000, completed = True\<rparr>]
   \<and> distinct (map date (filter (\<lambda>l. habitId l = Habit_id sample_habit \<and> completed l)
        [\<lparr>habitId = 1, date = 1709510400000, completed = True\<rparr>,
         \<lparr>habitId = 1, date = 1710374400000, completed = True\<rparr>]))
   \<and> computeAnalytics \<lparr>tzOffset = 0, now = 1710504000000\<rparr> sample_browser
        [\<lparr>habit_id = 1, habit_startDate = 1709510400000\<rparr>]
        [\<lparr>habitId = 1, date = 1710374400000, completed = True\<rparr>,
         \<lparr>habitId = 1, date = 1709510400000, completed = True\<rparr>] sample_habit
     = computeAnalytics \<lparr>tzOffset = 0, now = 1710504000000\<rparr> sample_browser
        [\<lparr>habit_id = 1, habit_startDate = 1709510400000\<rparr>]
        [\<lparr>habitId = 1, date = 1709510400000, completed = True\<rparr>,
         \<lparr>habitId = 1, date = 1710374400000, completed = True\<rparr>] sample_habit"
proof -
  have m: "mset [\<lparr>habitId = 1, date = 1710374400000, completed = True\<rparr>,
         \<lparr>habitId = 1, date = 1709510400000, completed = True\<rparr>]
     = mset [\<lparr>habitId = 1, date = 1709510400000, completed = True\<rparr>,
             \<lparr>habitId = 1, date = 1710374400000, completed = True\<rparr>]"
    by simp
  have d: "distinct (map date (filter (\<lambda>l. habitId l = Habit_id sample_habit \<and> completed l)
        [\<lparr>habitId = 1, date = 1709510400000, completed = True\<rparr>,
         \<lparr>habitId = 1, date = 1710374400000, completed = True\<rparr>]))"
    by (simp add: sample_habit_def)
  from computeAnalytics_permutation_invariant [OF m d, THEN conjunct2] m d
  show ?thesis by (intro conjI)
qed

end
